theory Spec2Isabelle
  imports Main "HOL-Library.Sublist"
begin

section \<open>JavaScript values and objects\<close>

text \<open>
  The helper works on plain data objects kept in a Redux store and in a persistent
  key-value cache. A plain object is the map from its own property names to their values.
  \<open>JHost\<close> is a built-in function or object of the runtime, by its name; such values
  come into play because a property lookup that finds no own property goes on to
  \<open>Object.prototype\<close>. Numbers play no part in the helper and are kept as integers.
\<close>

datatype jsval =
    JUndefined
  | JNull
  | JBool bool
  | JNum int
  | JStr string
  | JArr "jsval list"
  | JObj "string \<Rightarrow> jsval option"
  | JHost string

type_synonym obj = "string \<Rightarrow> jsval option"

text \<open>What \<open>if (v)\<close> and \<open>!v\<close> test.\<close>

definition truthy :: "jsval \<Rightarrow> bool" where
  "truthy v =
     (case v of
        JUndefined \<Rightarrow> False
      | JNull \<Rightarrow> False
      | JBool b \<Rightarrow> b
      | JNum n \<Rightarrow> n \<noteq> 0
      | JStr s \<Rightarrow> s \<noteq> []
      | JArr xs \<Rightarrow> True
      | JObj m \<Rightarrow> True
      | JHost h \<Rightarrow> True)"

text \<open>
  The properties every plain object inherits: those of \<open>Object.prototype\<close> as ECMAScript
  defines it. All of them are built-in functions, but \<open>__proto__\<close>, which reads as
  \<open>Object.prototype\<close> itself.
\<close>

definition objectPrototype :: obj where
  "objectPrototype =
     [''constructor'' \<mapsto> JHost ''Object'',
      ''hasOwnProperty'' \<mapsto> JHost ''Object.prototype.hasOwnProperty'',
      ''isPrototypeOf'' \<mapsto> JHost ''Object.prototype.isPrototypeOf'',
      ''propertyIsEnumerable'' \<mapsto> JHost ''Object.prototype.propertyIsEnumerable'',
      ''toLocaleString'' \<mapsto> JHost ''Object.prototype.toLocaleString'',
      ''toString'' \<mapsto> JHost ''Object.prototype.toString'',
      ''valueOf'' \<mapsto> JHost ''Object.prototype.valueOf'',
      ''__defineGetter__'' \<mapsto> JHost ''Object.prototype.__defineGetter__'',
      ''__defineSetter__'' \<mapsto> JHost ''Object.prototype.__defineSetter__'',
      ''__lookupGetter__'' \<mapsto> JHost ''Object.prototype.__lookupGetter__'',
      ''__lookupSetter__'' \<mapsto> JHost ''Object.prototype.__lookupSetter__'',
      ''__proto__'' \<mapsto> JHost ''Object.prototype'']"

text \<open>What a plain object with no own property \<open>k\<close> answers for \<open>k\<close>.\<close>

definition inherited :: "string \<Rightarrow> jsval" where
  "inherited k = (case objectPrototype k of None \<Rightarrow> JUndefined | Some h \<Rightarrow> h)"

text \<open>
  \<open>item[dep]\<close>: property lookup. On a plain object it is the own property, or else the
  inherited one. What a value that is not a plain object (a built-in, a string, a number,
  a boolean, an array) answers is the runtime's business and a parameter throughout:
  \<open>lookup v k\<close> is \<open>v[k]\<close> for such a \<open>v\<close>. It is taken to answer with a value. The
  source looks properties up on truthy values only, so never on \<open>undefined\<close> or \<open>null\<close>.
\<close>

type_synonym runtime = "jsval \<Rightarrow> string \<Rightarrow> jsval"

definition getProp :: "runtime \<Rightarrow> jsval \<Rightarrow> string \<Rightarrow> jsval" where
  "getProp lookup item dep =
     (case item of
        JObj own \<Rightarrow> (case own dep of Some v \<Rightarrow> v | None \<Rightarrow> inherited dep)
      | JUndefined \<Rightarrow> lookup item dep
      | JNull \<Rightarrow> lookup item dep
      | JBool b \<Rightarrow> lookup item dep
      | JNum n \<Rightarrow> lookup item dep
      | JStr s \<Rightarrow> lookup item dep
      | JArr xs \<Rightarrow> lookup item dep
      | JHost h \<Rightarrow> lookup item dep)"

section \<open>Inspecting dependent properties\<close>

text \<open>
  \<open>getMissingDependents({ item, dependents = [], fullDependents = [], full })\<close>.
  An omitted list is the empty list by the parameter defaults.
\<close>

definition getMissingDependents ::
  "runtime \<Rightarrow> jsval \<Rightarrow> string list \<Rightarrow> string list \<Rightarrow> bool \<Rightarrow> string list" where
  "getMissingDependents lookup item dependents fullDependents full =
     (let allDependents = dependents @ fullDependents in
      if \<not> truthy item then allDependents
      else if full
      then filter (\<lambda>dep. getProp lookup item dep = JUndefined \<or> getProp lookup item dep = JNull)
             allDependents
      else filter (\<lambda>dep. getProp lookup item dep = JUndefined \<or> getProp lookup item dep = JNull)
             dependents)"

text \<open>
  \<open>dep.match(new RegExp('(.*)_uri(.*)'))\<close>: the expression is not anchored and both
  groups may be empty, so a name matches exactly when \<open>_uri\<close> occurs in it.
\<close>

definition matchesUri :: "string \<Rightarrow> bool" where
  "matchesUri dep = sublist ''_uri'' dep"

text \<open>The inner \<open>getUrisOfDependent\<close> of \<open>getDependentUris\<close>, for a present item.\<close>

definition getUrisOfDependent :: "runtime \<Rightarrow> jsval \<Rightarrow> string \<Rightarrow> jsval list" where
  "getUrisOfDependent lookup item dep =
     (if \<not> matchesUri dep then []
      else case getProp lookup item dep of JArr uris \<Rightarrow> uris | _ \<Rightarrow> [])"

text \<open>
  \<open>getDependentUris({ item, dependents = [], fullDependents = [] })\<close>: the \<open>reduce\<close>
  over the concatenated names is a left fold that appends to the accumulator.
\<close>

definition getDependentUris ::
  "runtime \<Rightarrow> jsval \<Rightarrow> string list \<Rightarrow> string list \<Rightarrow> jsval list" where
  "getDependentUris lookup item dependents fullDependents =
     (if \<not> truthy item then []
      else foldl (\<lambda>acc dep. acc @ getUrisOfDependent lookup item dep) []
             (dependents @ fullDependents))"




section \<open>The store, the cold store and what the helper does to them\<close>

text \<open>
  The request passed as \<open>action\<close>: \<open>{ uri, options: { forceRefetch, full, callbackAction } }\<close>.
  The two flags are only tested for truth; \<open>callbackAction\<close> is an object or missing.
\<close>

record request_options =
  forceRefetch :: bool
  full :: bool
  callbackAction :: "obj option"

record request =
  uri :: string
  options :: request_options

text \<open>
  The part of the Redux state that is read: \<open>core\<close>, its named containers, and the items
  of a container by URI, each with its own properties. A missing \<open>core\<close> or a missing
  container is \<open>None\<close>. The types keep to states of the shape the reducers produce:
  containers are plain objects and their own entries are plain item objects.
\<close>

record redux_state =
  core :: "(string \<Rightarrow> (string \<Rightarrow> obj option) option) option"

text \<open>
  The argument object of \<open>ensureLoaded\<close>. \<open>store\<close> holds what \<open>store.getState()\<close>
  returns; \<open>containerName\<close>, \<open>dependents\<close> and \<open>fullDependents\<close> may be omitted;
  \<open>itemType\<close> is the argument \<open>type\<close>, handed on to \<open>loadItems\<close> untouched. The
  argument \<open>fetch\<close> is opaque and shows only as the event of calling it.
\<close>

record params =
  store :: redux_state
  containerName :: "string option"
  action :: request
  dependents :: "string list option"
  fullDependents :: "string list option"
  itemType :: jsval

text \<open>A parameter default: \<open>name = value\<close> in the parameter list.\<close>

definition orDefault :: "'a option \<Rightarrow> 'a \<Rightarrow> 'a" where
  "orDefault given d = (case given of None \<Rightarrow> d | Some v \<Rightarrow> v)"

text \<open>
  What is dispatched: the call of an action creator with its arguments. The creators
  themselves (\<open>setLoading\<close>, \<open>stopLoading\<close>, \<open>loadItems\<close>, \<open>restoreItemsFromColdStore\<close>,
  \<open>enqueueURIs\<close>, \<open>playURIs\<close>) belong to other modules.
\<close>

datatype dispatched =
    SetLoading string bool
  | StopLoading string
  | LoadItems jsval "jsval list"
  | RestoreItemsFromColdStore "obj list"
  | EnqueueURIs obj
  | PlayURIs obj

text \<open>
  The effects of one invocation, in the order they happen: \<open>GetState\<close> is the call of
  \<open>store.getState()\<close> with the destructuring that takes the item for the URI out of the
  index; \<open>Dispatch\<close> is a call of \<open>store.dispatch\<close>; \<open>Fetch\<close> is the call \<open>fetch()\<close>;
  \<open>GetItem\<close> is a read of the cold store, \<open>localForage.getItem(key)\<close>. Logging to the
  console is left out.
\<close>

datatype event =
    GetState
  | Dispatch dispatched
  | Fetch
  | GetItem jsval

text \<open>
  The nested destructuring of \<open>store.getState()\<close>:
  \<open>{ core: { [containerName]: { [uri]: item } = {} } = {} }\<close>. Each step is a property
  lookup: the container is the own property of \<open>core\<close> under the name, or else what a
  plain object inherits under it, and only if that is undefined the default \<open>{}\<close>; the
  item is looked up in the container in the same way. A missing \<open>core\<close> is the default
  \<open>{}\<close>, which has no own property.
\<close>

definition indexItem :: "runtime \<Rightarrow> redux_state \<Rightarrow> string \<Rightarrow> string \<Rightarrow> jsval" where
  "indexItem lookup s cname u =
     (let coreObj = (case core s of None \<Rightarrow> Map.empty | Some c \<Rightarrow> c) in
      case coreObj cname of
        Some container \<Rightarrow> (case container u of Some it \<Rightarrow> JObj it | None \<Rightarrow> inherited u)
      | None \<Rightarrow>
          (case objectPrototype cname of
             Some builtin \<Rightarrow> lookup builtin u
           | None \<Rightarrow> inherited u))"

text \<open>The \<open>item\<close> that \<open>ensureLoaded\<close> destructures: the container defaults to \<open>'items'\<close>.\<close>

definition indexedItem :: "runtime \<Rightarrow> params \<Rightarrow> jsval" where
  "indexedItem lookup a =
     indexItem lookup (store a) (orDefault (containerName a) ''items'') (uri (action a))"

text \<open>The closures \<open>missingDependents\<close> and \<open>dependentUris\<close> of \<open>ensureLoaded\<close>.\<close>

definition missingDependents :: "runtime \<Rightarrow> params \<Rightarrow> jsval \<Rightarrow> string list" where
  "missingDependents lookup a itemToCheck =
     getMissingDependents lookup itemToCheck (orDefault (dependents a) [])
       (orDefault (fullDependents a) []) (full (options (action a)))"

definition dependentUris :: "runtime \<Rightarrow> params \<Rightarrow> jsval \<Rightarrow> jsval list" where
  "dependentUris lookup a itemToCheck =
     getDependentUris lookup itemToCheck (orDefault (dependents a) [])
       (orDefault (fullDependents a) [])"

text \<open>
  \<open>runCallback(item)\<close>: the \<open>switch\<close> on \<open>callbackAction.name\<close>. The object literal
  \<open>{ uris: [item.uri], from: formatContext(item), ...callbackAction }\<close> spreads the own
  properties of the callback action last, so they are laid over the two computed ones.
  \<open>formatContext\<close> comes from another module and is a parameter here.
\<close>

definition runCallback ::
  "runtime \<Rightarrow> (jsval \<Rightarrow> jsval) \<Rightarrow> obj \<Rightarrow> jsval \<Rightarrow> dispatched list" where
  "runCallback lookup formatContext cb item =
     (if getProp lookup (JObj cb) ''name'' = JStr ''enqueue'' then
        [EnqueueURIs
           ([''uris'' \<mapsto> JArr [getProp lookup item ''uri''], ''from'' \<mapsto> formatContext item]
              ++ cb)]
      else if getProp lookup (JObj cb) ''name'' = JStr ''play'' then
        [PlayURIs
           ([''uris'' \<mapsto> JArr [getProp lookup item ''uri''], ''from'' \<mapsto> formatContext item]
              ++ cb)]
      else [])"

text \<open>\<open>if (callbackAction) runCallback(item)\<close>, as the events it causes.\<close>

definition callbackStep ::
  "runtime \<Rightarrow> (jsval \<Rightarrow> jsval) \<Rightarrow> params \<Rightarrow> jsval \<Rightarrow> event list" where
  "callbackStep lookup formatContext a item =
     (case callbackAction (options (action a)) of
        None \<Rightarrow> []
      | Some cb \<Rightarrow> map Dispatch (runCallback lookup formatContext cb item))"

text \<open>lodash's \<open>compact\<close> on the results of cold-store reads: the misses are dropped.\<close>

fun compact :: "'a option list \<Rightarrow> 'a list" where
  "compact [] = []"
| "compact (None # xs) = compact xs"
| "compact (Some x # xs) = x # compact xs"

text \<open>
  An invocation is a list of turns of the event loop, each turn the events that happen in
  it without interruption. The first turn is the body of \<open>ensureLoaded\<close> up to its return;
  every later turn is a promise callback. The cold store \<open>localForage\<close> answers a key with
  the stored plain object or with \<open>None\<close> (\<open>null\<close>); its content stays the same during a
  run, and its reads resolve (a rejected read has no handler in the source and ends the
  chain).

  The callback given to \<open>localForage.getItem(uri).then\<close>, and after it the callback given
  to \<open>Promise.all(...).then\<close>:
\<close>

definition onRestored ::
  "runtime \<Rightarrow> (jsval \<Rightarrow> jsval) \<Rightarrow> (jsval \<Rightarrow> obj option) \<Rightarrow> params \<Rightarrow> obj option
     \<Rightarrow> event list list" where
  "onRestored lookup formatContext localForage a restoredItem =
     (case restoredItem of
        None \<Rightarrow> [[Dispatch (SetLoading (uri (action a)) True), Fetch]]
      | Some it \<Rightarrow>
          if length (missingDependents lookup a (JObj it)) > 0
          then [[Dispatch (SetLoading (uri (action a)) True), Fetch]]
          else
            (let uris = dependentUris lookup a (JObj it) in
             if length uris > 0
             then [[Dispatch (RestoreItemsFromColdStore [it])]
                     @ callbackStep lookup formatContext a (JObj it)
                     @ map GetItem uris,
                   [Dispatch (RestoreItemsFromColdStore (compact (map localForage uris)))]]
             else [[Dispatch (RestoreItemsFromColdStore [it])]
                     @ callbackStep lookup formatContext a (JObj it)]))"

definition ensureLoaded ::
  "runtime \<Rightarrow> (jsval \<Rightarrow> jsval) \<Rightarrow> (jsval \<Rightarrow> obj option) \<Rightarrow> params \<Rightarrow> event list list" where
  "ensureLoaded lookup formatContext localForage a =
     (let u = uri (action a);
          item = indexedItem lookup a
      in
        if forceRefetch (options (action a))
        then [[GetState, Dispatch (SetLoading u True), Fetch]]
        else if truthy item \<and> length (missingDependents lookup a item) = 0
        then
          (let uris = dependentUris lookup a item in
           [[GetState, Dispatch (StopLoading u)]
              @ (if length uris > 0 then [Dispatch (LoadItems (itemType a) uris)] else [])
              @ callbackStep lookup formatContext a item])
        else [GetState, GetItem (JStr u)]
               # onRestored lookup formatContext localForage a (localForage (JStr u)))"

text \<open>The dispatches of a run, in order, and how often \<open>fetch()\<close> is called in it.\<close>

fun dispatchesOf :: "event list \<Rightarrow> dispatched list" where
  "dispatchesOf [] = []"
| "dispatchesOf (Dispatch d # es) = d # dispatchesOf es"
| "dispatchesOf (e # es) = dispatchesOf es"

definition fetchCount :: "event list \<Rightarrow> nat" where
  "fetchCount es = length (filter (\<lambda>e. e = Fetch) es)"

section \<open>Calls on a live store\<close>

text \<open>
  \<open>store.dispatch\<close> hands an action to the reducers, and \<open>fetch\<close> is the caller's; both
  live in other modules and are parameters here: \<open>reducer s d\<close> is the state after \<open>d\<close> is
  dispatched in state \<open>s\<close>, and \<open>fetched s\<close> the state after \<open>fetch()\<close> is called in state
  \<open>s\<close>. Reading the state and asking the cold store leave the state as it is.
\<close>

definition effect ::
  "(redux_state \<Rightarrow> dispatched \<Rightarrow> redux_state) \<Rightarrow> (redux_state \<Rightarrow> redux_state)
     \<Rightarrow> redux_state \<Rightarrow> event \<Rightarrow> redux_state" where
  "effect reducer fetched s e =
     (case e of
        GetState \<Rightarrow> s
      | Dispatch d \<Rightarrow> reducer s d
      | Fetch \<Rightarrow> fetched s
      | GetItem k \<Rightarrow> s)"

text \<open>The events up to the return of \<open>ensureLoaded\<close>.\<close>

fun firstTurn :: "event list list \<Rightarrow> event list" where
  "firstTurn [] = []"
| "firstTurn (t # ts) = t"

text \<open>
  A call of \<open>ensureLoaded\<close> on a store in state \<open>s\<close>, up to its return: \<open>store.getState()\<close>
  gives \<open>s\<close>, and the events of the call move the store on. Two calls with the same
  arguments, the second right after the return of the first, on the store as the first
  left it.
\<close>

definition callOnStore ::
  "runtime \<Rightarrow> (jsval \<Rightarrow> jsval) \<Rightarrow> (jsval \<Rightarrow> obj option)
     \<Rightarrow> (redux_state \<Rightarrow> dispatched \<Rightarrow> redux_state) \<Rightarrow> (redux_state \<Rightarrow> redux_state)
     \<Rightarrow> params \<Rightarrow> redux_state \<Rightarrow> event list \<times> redux_state" where
  "callOnStore lookup formatContext localForage reducer fetched a s =
     (let t = firstTurn (ensureLoaded lookup formatContext localForage (a\<lparr>store := s\<rparr>))
      in (t, foldl (effect reducer fetched) s t))"

definition ensureLoadedTwice ::
  "runtime \<Rightarrow> (jsval \<Rightarrow> jsval) \<Rightarrow> (jsval \<Rightarrow> obj option)
     \<Rightarrow> (redux_state \<Rightarrow> dispatched \<Rightarrow> redux_state) \<Rightarrow> (redux_state \<Rightarrow> redux_state)
     \<Rightarrow> params \<Rightarrow> redux_state \<Rightarrow> event list \<times> redux_state" where
  "ensureLoadedTwice lookup formatContext localForage reducer fetched a s =
     (case callOnStore lookup formatContext localForage reducer fetched a s of
        (t1, s1) \<Rightarrow>
          (case callOnStore lookup formatContext localForage reducer fetched a s1 of
             (t2, s2) \<Rightarrow> (t1 @ t2, s2)))"

section \<open>Example data\<close>

text \<open>
  An album \<open>{ uri: "x", name: "Foo", artist_uri: ["a", "b"] }\<close>, one of its artists, an
  album whose \<open>artist_uri\<close> is not an array, callback actions, an index and a cold store
  holding them, and requests that declare \<open>artist_uri\<close> as a dependent, or nothing for
  the URI \<open>"toString"\<close>. The runs of the examples look properties up on plain objects
  only, so the runtime's answers for other values play no part in them; \<open>noLookup\<close> fills
  the parameter there and is never consulted. \<open>notingReducer\<close> is a reducer that notes a
  URI whose loading was stopped in a container of its own and leaves the rest of \<open>core\<close>
  as it is.
\<close>

definition albumX :: obj where
  "albumX = [''uri'' \<mapsto> JStr ''x'', ''name'' \<mapsto> JStr ''Foo'',
             ''artist_uri'' \<mapsto> JArr [JStr ''a'', JStr ''b'']]"

definition artistA :: obj where
  "artistA = [''uri'' \<mapsto> JStr ''a'', ''name'' \<mapsto> JStr ''Ann'']"

definition albumPlain :: obj where
  "albumPlain = [''uri'' \<mapsto> JStr ''x'', ''artist_uri'' \<mapsto> JStr ''a'']"

definition playNow :: obj where
  "playNow = [''name'' \<mapsto> JStr ''play'']"

definition enqueueOther :: obj where
  "enqueueOther = [''name'' \<mapsto> JStr ''enqueue'', ''uris'' \<mapsto> JArr [JStr ''z'']]"

definition noLookup :: runtime where
  "noLookup v k = JUndefined"

definition notingReducer :: "redux_state \<Rightarrow> dispatched \<Rightarrow> redux_state" where
  "notingReducer s d =
     (case d of
        StopLoading u \<Rightarrow>
          s\<lparr>core := Some ((case core s of None \<Rightarrow> Map.empty | Some c \<Rightarrow> c)
                              (''stopped'' \<mapsto> [u \<mapsto> Map.empty]))\<rparr>
      | SetLoading u b \<Rightarrow> s
      | LoadItems t us \<Rightarrow> s
      | RestoreItemsFromColdStore items \<Rightarrow> s
      | EnqueueURIs p \<Rightarrow> s
      | PlayURIs p \<Rightarrow> s)"

definition emptyIndex :: redux_state where
  "emptyIndex = \<lparr> core = None \<rparr>"

definition indexWithX :: redux_state where
  "indexWithX = \<lparr> core = Some [''items'' \<mapsto> [''x'' \<mapsto> albumX]] \<rparr>"

definition emptyCold :: "jsval \<Rightarrow> obj option" where
  "emptyCold = Map.empty"

definition coldWithXA :: "jsval \<Rightarrow> obj option" where
  "coldWithXA = [JStr ''x'' \<mapsto> albumX, JStr ''a'' \<mapsto> artistA]"

definition coldWithPlain :: "jsval \<Rightarrow> obj option" where
  "coldWithPlain = [JStr ''x'' \<mapsto> albumPlain]"


definition requestX :: "redux_state \<Rightarrow> bool \<Rightarrow> obj option \<Rightarrow> params" where
  "requestX s force cb =
     \<lparr> store = s, containerName = None,
       action = \<lparr> uri = ''x'',
                  options = \<lparr> forceRefetch = force, full = False, callbackAction = cb \<rparr> \<rparr>,
       dependents = Some [''artist_uri''], fullDependents = None,
       itemType = JStr ''artists'' \<rparr>"

definition requestToString :: "redux_state \<Rightarrow> params" where
  "requestToString s =
     \<lparr> store = s, containerName = None,
       action = \<lparr> uri = ''toString'',
                  options = \<lparr> forceRefetch = False, full = False, callbackAction = None \<rparr> \<rparr>,
       dependents = None, fullDependents = None,
       itemType = JStr ''artists'' \<rparr>"

section \<open>Properties of the dependent inspection\<close>

lemma objectPrototype_builtin: "objectPrototype k = Some v \<Longrightarrow> \<exists>h. v = JHost h"
  by (auto simp: objectPrototype_def split: if_splits)

lemma inherited_cases: "inherited k = JUndefined \<and> objectPrototype k = None
    \<or> (\<exists>h. inherited k = JHost h \<and> objectPrototype k = Some (JHost h))"
  using objectPrototype_builtin [of k] by (auto simp: inherited_def split: option.splits)





lemma foldl_append_concat:
  "foldl (\<lambda>acc dep. acc @ f dep) acc ds = acc @ concat (map f ds)"
  by (induction ds arbitrary: acc) simp_all

lemma matchesUri_iff: "matchesUri dep \<longleftrightarrow> (\<exists>p s. dep = p @ ''_uri'' @ s)"
  by (simp add: matchesUri_def sublist_def)

lemma getProp_plain_array:
  "getProp lookup (JObj own) dep = JArr us \<longleftrightarrow> own dep = Some (JArr us)"
  using inherited_cases [of dep] by (auto simp: getProp_def split: option.splits)

text \<open>
  C6. \<open>getDependentUris\<close> is empty for an absent item. For a present item it is the
  concatenation, over the names of \<open>dependents\<close> followed by \<open>fullDependents\<close> (in order,
  duplicates kept), of what each name contributes: the elements of the item's array at a
  name in which \<open>_uri\<close> occurs, and nothing at a name in which it does not occur or whose
  value is not an array. On a plain object the value at a name is an array exactly when
  the object's own value there is one.
\<close>

theorem getDependentUris_concat:
  "getDependentUris lookup JUndefined D F = [] \<and>
   getDependentUris lookup JNull D F = [] \<and>
   (\<not> truthy item \<longrightarrow> getDependentUris lookup item D F = []) \<and>
   (truthy item \<longrightarrow>
      getDependentUris lookup item D F = concat (map (getUrisOfDependent lookup item) (D @ F))) \<and>
   getDependentUris lookup (JObj it) D F
     = concat (map (getUrisOfDependent lookup (JObj it)) (D @ F)) \<and>
   (\<forall>us. (\<exists>p s. dep = p @ ''_uri'' @ s) \<and> getProp lookup item dep = JArr us
      \<longrightarrow> getUrisOfDependent lookup item dep = us) \<and>
   (\<forall>us. (\<exists>p s. dep = p @ ''_uri'' @ s) \<and> it dep = Some (JArr us)
      \<longrightarrow> getUrisOfDependent lookup (JObj it) dep = us) \<and>
   ((\<forall>p s. dep \<noteq> p @ ''_uri'' @ s) \<longrightarrow> getUrisOfDependent lookup item dep = []) \<and>
   ((\<forall>us. getProp lookup item dep \<noteq> JArr us) \<longrightarrow> getUrisOfDependent lookup item dep = []) \<and>
   ((\<forall>us. it dep \<noteq> Some (JArr us)) \<longrightarrow> getUrisOfDependent lookup (JObj it) dep = [])"
proof -
  have absent: "\<not> truthy v \<Longrightarrow> getDependentUris lookup v D F = []" for v
    by (simp add: getDependentUris_def)
  have present: "truthy v \<Longrightarrow>
      getDependentUris lookup v D F = concat (map (getUrisOfDependent lookup v) (D @ F))" for v
    unfolding getDependentUris_def
    using foldl_append_concat [of "getUrisOfDependent lookup v" "[]" "D @ F"] by simp
  have arr: "(\<exists>p s. dep = p @ ''_uri'' @ s) \<and> getProp lookup v dep = JArr us
      \<Longrightarrow> getUrisOfDependent lookup v dep = us" for v us
    by (auto simp: getUrisOfDependent_def matchesUri_iff)
  have nomatch: "(\<forall>p s. dep \<noteq> p @ ''_uri'' @ s) \<longrightarrow> getUrisOfDependent lookup item dep = []"
    by (simp add: getUrisOfDependent_def matchesUri_iff)
  have noarr: "(\<forall>us. getProp lookup v dep \<noteq> JArr us)
      \<Longrightarrow> getUrisOfDependent lookup v dep = []" for v
    by (auto simp: getUrisOfDependent_def split: jsval.splits)
  have 1: "getDependentUris lookup JUndefined D F = []"
    by (rule absent) (simp add: truthy_def)
  have 2: "getDependentUris lookup JNull D F = []"
    by (rule absent) (simp add: truthy_def)
  have 3: "getDependentUris lookup (JObj it) D F
      = concat (map (getUrisOfDependent lookup (JObj it)) (D @ F))"
    by (rule present) (simp add: truthy_def)
  have 4: "\<forall>us. (\<exists>p s. dep = p @ ''_uri'' @ s) \<and> it dep = Some (JArr us)
      \<longrightarrow> getUrisOfDependent lookup (JObj it) dep = us"
    using arr [of "JObj it"] by (simp add: getProp_plain_array)
  have 5: "(\<forall>us. it dep \<noteq> Some (JArr us)) \<longrightarrow> getUrisOfDependent lookup (JObj it) dep = []"
    using noarr [of "JObj it"] by (simp add: getProp_plain_array)
  from 1 2 3 4 5 absent [of item] present [of item] arr [of item] nomatch noarr [of item]
  show ?thesis by blast
qed

theorem getDependentUris_concat_witness:
  "getUrisOfDependent noLookup (JObj albumX) ''artist_uri'' = [JStr ''a'', JStr ''b''] \<and>
   getUrisOfDependent noLookup (JObj albumPlain) ''artist_uri'' = [] \<and>
   getUrisOfDependent noLookup (JObj albumX) ''name'' = [] \<and>
   getDependentUris noLookup (JObj albumX) [''name'', ''artist_uri''] [''artist_uri'']
     = [JStr ''a'', JStr ''b'', JStr ''a'', JStr ''b'']"
proof -
  have occurs: "\<exists>p s. ''artist_uri'' = p @ ''_uri'' @ s"
    using matchesUri_iff [of "''artist_uri''"] by (simp add: matchesUri_def sublist_Cons_right)
  have absent: "\<forall>p s. ''name'' \<noteq> p @ ''_uri'' @ s"
    using matchesUri_iff [of "''name''"] by (simp add: matchesUri_def sublist_Cons_right)
  have arr: "albumX ''artist_uri'' = Some (JArr [JStr ''a'', JStr ''b''])"
    by (simp add: albumX_def)
  have noarr: "\<forall>us. albumPlain ''artist_uri'' \<noteq> Some (JArr us)"
    by (simp add: albumPlain_def)
  have one: "getUrisOfDependent noLookup (JObj albumX) ''artist_uri'' = [JStr ''a'', JStr ''b'']"
    using getDependentUris_concat [where it = albumX and dep = "''artist_uri''"] occurs arr
    by blast
  have two: "getUrisOfDependent noLookup (JObj albumPlain) ''artist_uri'' = []"
    using getDependentUris_concat [where it = albumPlain and dep = "''artist_uri''"] noarr
    by blast
  have three: "getUrisOfDependent noLookup (JObj albumX) ''name'' = []"
    using getDependentUris_concat [where item = "JObj albumX" and dep = "''name''"] absent
    by blast
  have "getDependentUris noLookup (JObj albumX) [''name'', ''artist_uri''] [''artist_uri'']
      = concat (map (getUrisOfDependent noLookup (JObj albumX))
          ([''name'', ''artist_uri''] @ [''artist_uri'']))"
    using getDependentUris_concat
      [where it = albumX and D = "[''name'', ''artist_uri'']" and F = "[''artist_uri'']"]
    by blast
  with one two three show ?thesis by simp
qed

section \<open>Properties of the orchestrator\<close>

subsection \<open>Events of the parts\<close>

lemma dispatchesOf_append: "dispatchesOf (xs @ ys) = dispatchesOf xs @ dispatchesOf ys"
  by (induction xs rule: dispatchesOf.induct) simp_all

lemma dispatchesOf_map_Dispatch: "dispatchesOf (map Dispatch ds) = ds"
  by (induction ds) simp_all

lemma dispatchesOf_map_GetItem: "dispatchesOf (map GetItem ks) = []"
  by (induction ks) simp_all

lemma dispatchesOf_callbackStep:
  "dispatchesOf (callbackStep lookup fc a item) =
     (case callbackAction (options (action a)) of
        None \<Rightarrow> [] | Some cb \<Rightarrow> runCallback lookup fc cb item)"
  by (simp add: callbackStep_def dispatchesOf_map_Dispatch split: option.splits)

lemma callbackStep_only_dispatches:
  "e \<in> set (callbackStep lookup fc a item) \<Longrightarrow> \<exists>d. e = Dispatch d"
  by (auto simp: callbackStep_def split: option.splits)

lemma callbackStep_no_Fetch: "Fetch \<notin> set (callbackStep lookup fc a item)"
  using callbackStep_only_dispatches by blast

lemma callbackStep_no_GetItem: "GetItem k \<notin> set (callbackStep lookup fc a item)"
  using callbackStep_only_dispatches by blast

lemma runCallback_only_requests:
  "d \<in> set (runCallback lookup fc cb item) \<Longrightarrow> (\<exists>p. d = EnqueueURIs p) \<or> (\<exists>p. d = PlayURIs p)"
  by (auto simp: runCallback_def split: if_splits)

lemma fetchCount_simps:
  "fetchCount [] = 0"
  "fetchCount (Fetch # es) = Suc (fetchCount es)"
  "fetchCount (GetState # es) = fetchCount es"
  "fetchCount (Dispatch d # es) = fetchCount es"
  "fetchCount (GetItem k # es) = fetchCount es"
  "fetchCount (xs @ ys) = fetchCount xs + fetchCount ys"
  by (simp_all add: fetchCount_def)

lemma fetchCount_none: "Fetch \<notin> set es \<Longrightarrow> fetchCount es = 0"
  by (induction es) (auto simp: fetchCount_def)

lemma compact_filter: "compact rs = map the (filter (\<lambda>r. r \<noteq> None) rs)"
  by (induction rs rule: compact.induct) simp_all

subsection \<open>The shape of a run in each branch\<close>

lemma ensureLoaded_forced_shape:
  "forceRefetch (options (action a)) \<Longrightarrow>
   ensureLoaded lookup fc lf a = [[GetState, Dispatch (SetLoading (uri (action a)) True), Fetch]]"
  by (simp add: ensureLoaded_def Let_def)

lemma ensureLoaded_index_shape:
  assumes "\<not> forceRefetch (options (action a))"
    and "truthy (indexedItem lookup a)"
    and "missingDependents lookup a (indexedItem lookup a) = []"
  shows "ensureLoaded lookup fc lf a =
     [[GetState, Dispatch (StopLoading (uri (action a)))]
        @ (if dependentUris lookup a (indexedItem lookup a) \<noteq> []
           then [Dispatch (LoadItems (itemType a) (dependentUris lookup a (indexedItem lookup a)))]
           else [])
        @ callbackStep lookup fc a (indexedItem lookup a)]"
  using assms by (simp add: ensureLoaded_def Let_def)

lemma ensureLoaded_cold_shape:
  assumes "\<not> forceRefetch (options (action a))"
    and "\<not> truthy (indexedItem lookup a) \<or> missingDependents lookup a (indexedItem lookup a) \<noteq> []"
  shows "ensureLoaded lookup fc lf a =
     [GetState, GetItem (JStr (uri (action a)))]
       # onRestored lookup fc lf a (lf (JStr (uri (action a))))"
  using assms by (auto simp: ensureLoaded_def Let_def)

lemma onRestored_miss:
  assumes "r = None \<or> (\<exists>it. r = Some it \<and> missingDependents lookup a (JObj it) \<noteq> [])"
  shows "onRestored lookup fc lf a r = [[Dispatch (SetLoading (uri (action a)) True), Fetch]]"
  using assms by (auto simp: onRestored_def split: option.splits)

lemma onRestored_hit:
  assumes "missingDependents lookup a (JObj it) = []"
  shows "onRestored lookup fc lf a (Some it) =
     (if dependentUris lookup a (JObj it) \<noteq> []
      then [[Dispatch (RestoreItemsFromColdStore [it])] @ callbackStep lookup fc a (JObj it)
              @ map GetItem (dependentUris lookup a (JObj it)),
            [Dispatch (RestoreItemsFromColdStore
               (compact (map lf (dependentUris lookup a (JObj it)))))]]
      else [[Dispatch (RestoreItemsFromColdStore [it])] @ callbackStep lookup fc a (JObj it)])"
  using assms by (simp add: onRestored_def Let_def)

lemma ensureLoaded_cold_hit_shape:
  assumes "\<not> forceRefetch (options (action a))"
    and "\<not> truthy (indexedItem lookup a) \<or> missingDependents lookup a (indexedItem lookup a) \<noteq> []"
    and "lf (JStr (uri (action a))) = Some it"
    and "missingDependents lookup a (JObj it) = []"
  shows "ensureLoaded lookup fc lf a =
     [GetState, GetItem (JStr (uri (action a)))]
       # (if dependentUris lookup a (JObj it) \<noteq> []
          then [[Dispatch (RestoreItemsFromColdStore [it])] @ callbackStep lookup fc a (JObj it)
                  @ map GetItem (dependentUris lookup a (JObj it)),
                [Dispatch (RestoreItemsFromColdStore
                   (compact (map lf (dependentUris lookup a (JObj it)))))]]
          else [[Dispatch (RestoreItemsFromColdStore [it])] @ callbackStep lookup fc a (JObj it)])"
  using ensureLoaded_cold_shape [OF assms(1,2), of fc lf]
    onRestored_hit [OF assms(4), of fc lf]
  by (simp add: assms(3))

subsection \<open>Unfolding on concrete inputs\<close>

lemmas eval_defs =
  indexedItem_def indexItem_def orDefault_def missingDependents_def dependentUris_def
  getMissingDependents_def getDependentUris_def getUrisOfDependent_def matchesUri_def
  sublist_Cons_right getProp_def inherited_def objectPrototype_def truthy_def
  callbackStep_def runCallback_def

subsection \<open>The index read\<close>

text \<open>
  An own entry of an own container is the item. Where there is no own entry and neither
  the URI nor the container name is a name that plain objects inherit, the read gives
  \<open>undefined\<close>. Under an inherited name it gives a built-in, which is truthy: the code
  takes it for an item.
\<close>

lemma indexItem_own_entry:
  "core s = Some c \<Longrightarrow> c cname = Some container \<Longrightarrow> container u = Some it
     \<Longrightarrow> indexItem lookup s cname u = JObj it"
  by (simp add: indexItem_def)

lemma indexItem_no_entry:
  assumes "\<forall>c container. core s = Some c \<and> c cname = Some container \<longrightarrow> container u = None"
    and "objectPrototype u = None"
    and "objectPrototype cname = None"
  shows "indexItem lookup s cname u = JUndefined"
  using assms by (auto simp: indexItem_def inherited_def Let_def split: option.splits)

lemma indexItem_inherited:
  assumes "core s = None \<or> (\<exists>c. core s = Some c \<and> c cname = None)"
    and "objectPrototype cname = None"
    and "objectPrototype u = Some builtin"
  shows "indexItem lookup s cname u = builtin \<and> truthy builtin"
  using assms objectPrototype_builtin [of u builtin]
  by (auto simp: indexItem_def inherited_def truthy_def Let_def split: option.splits)

subsection \<open>The index-satisfied branch\<close>

text \<open>
  C1. When \<open>forceRefetch\<close> is false, the index read gives an item (something truthy) for
  the requested URI in the named container and none of its dependents is missing, the run
  is one turn: the state read, \<open>stopLoading(uri)\<close>, then \<open>loadItems(type, uris)\<close> with the
  dependent URIs of the item if there are any, then the callback step if a callback action
  is given. The cold store is not asked for anything and \<open>fetch()\<close> is not called.
\<close>

theorem ensureLoaded_index_satisfied:
  assumes "\<not> forceRefetch (options (action a))"
    and "indexedItem lookup a = item"
    and "truthy item"
    and "missingDependents lookup a item = []"
  shows "ensureLoaded lookup fc lf a =
           [[GetState, Dispatch (StopLoading (uri (action a)))]
              @ (if dependentUris lookup a item \<noteq> []
                 then [Dispatch (LoadItems (itemType a) (dependentUris lookup a item))] else [])
              @ (case callbackAction (options (action a)) of
                   None \<Rightarrow> []
                 | Some cb \<Rightarrow> map Dispatch (runCallback lookup fc cb item))]
         \<and> (\<forall>k. GetItem k \<notin> set (concat (ensureLoaded lookup fc lf a)))
         \<and> Fetch \<notin> set (concat (ensureLoaded lookup fc lf a))"
proof -
  have shape: "ensureLoaded lookup fc lf a =
     [[GetState, Dispatch (StopLoading (uri (action a)))]
        @ (if dependentUris lookup a item \<noteq> []
           then [Dispatch (LoadItems (itemType a) (dependentUris lookup a item))] else [])
        @ callbackStep lookup fc a item]"
    using ensureLoaded_index_shape [of a lookup fc lf] assms by simp
  have cb: "callbackStep lookup fc a item =
      (case callbackAction (options (action a)) of
         None \<Rightarrow> [] | Some cb \<Rightarrow> map Dispatch (runCallback lookup fc cb item))"
    by (simp add: callbackStep_def)
  have noread: "\<forall>k. GetItem k \<notin> set (concat (ensureLoaded lookup fc lf a))"
    unfolding shape using callbackStep_no_GetItem [of _ lookup fc a item] by auto
  have nofetch: "Fetch \<notin> set (concat (ensureLoaded lookup fc lf a))"
    unfolding shape using callbackStep_no_Fetch [of lookup fc a item] by auto
  from shape cb noread nofetch show ?thesis by simp
qed

theorem ensureLoaded_index_satisfied_witness:
  "ensureLoaded noLookup id emptyCold (requestX indexWithX False None) =
     [[GetState, Dispatch (StopLoading ''x''),
       Dispatch (LoadItems (JStr ''artists'') [JStr ''a'', JStr ''b''])]]
   \<and> ensureLoaded noLookup id emptyCold (requestToString emptyIndex) =
     [[GetState, Dispatch (StopLoading ''toString'')]]"
proof -
  let ?a = "requestX indexWithX False None"
  have 1: "\<not> forceRefetch (options (action ?a))"
    by (simp add: requestX_def)
  have 2: "indexedItem noLookup ?a = JObj albumX"
    by (simp add: eval_defs requestX_def indexWithX_def)
  have 3: "truthy (JObj albumX)"
    by (simp add: truthy_def)
  have 4: "missingDependents noLookup ?a (JObj albumX) = []"
    by (simp add: eval_defs requestX_def albumX_def)
  have 5: "dependentUris noLookup ?a (JObj albumX) = [JStr ''a'', JStr ''b'']"
    by (simp add: eval_defs requestX_def albumX_def)
  have first: "ensureLoaded noLookup id emptyCold ?a =
     [[GetState, Dispatch (StopLoading ''x''),
       Dispatch (LoadItems (JStr ''artists'') [JStr ''a'', JStr ''b''])]]"
    using ensureLoaded_index_satisfied [OF 1 2 3 4, of id emptyCold]
    by (simp add: 5) (simp add: requestX_def)
  let ?b = "requestToString emptyIndex"
  have 6: "\<not> forceRefetch (options (action ?b))"
    by (simp add: requestToString_def)
  have 7: "indexedItem noLookup ?b = JHost ''Object.prototype.toString''"
    by (simp add: eval_defs requestToString_def emptyIndex_def)
  have 8: "truthy (JHost ''Object.prototype.toString'')"
    by (simp add: truthy_def)
  have 9: "missingDependents noLookup ?b (JHost ''Object.prototype.toString'') = []"
    by (simp add: eval_defs requestToString_def)
  have 10: "dependentUris noLookup ?b (JHost ''Object.prototype.toString'') = []"
    by (simp add: eval_defs requestToString_def)
  have second: "ensureLoaded noLookup id emptyCold ?b =
     [[GetState, Dispatch (StopLoading ''toString'')]]"
    using ensureLoaded_index_satisfied [OF 6 7 8 9, of id emptyCold]
    by (simp add: 10) (simp add: requestToString_def)
  from first second show ?thesis by simp
qed

subsection \<open>The forced refetch\<close>

text \<open>
  C2, as the code has it. When \<open>forceRefetch\<close> is true the run is one turn: the store state
  is read (the destructuring of \<open>store.getState()\<close> stands before the test of the flag),
  \<open>setLoading(uri, true)\<close> is dispatched and \<open>fetch()\<close> is called once. Nothing else is
  dispatched, the cold store is not asked for anything, and what the index and the cold
  store hold has no influence on the run.
\<close>

theorem ensureLoaded_force_refetch:
  assumes "forceRefetch (options (action a))"
  shows "ensureLoaded lookup fc lf a
           = [[GetState, Dispatch (SetLoading (uri (action a)) True), Fetch]]
       \<and> fetchCount (concat (ensureLoaded lookup fc lf a)) = 1
       \<and> dispatchesOf (concat (ensureLoaded lookup fc lf a)) = [SetLoading (uri (action a)) True]
       \<and> (\<forall>k. GetItem k \<notin> set (concat (ensureLoaded lookup fc lf a)))
       \<and> ensureLoaded lookup' fc lf' (a\<lparr>store := s'\<rparr>) = ensureLoaded lookup fc lf a"
proof -
  have shape: "ensureLoaded lookup fc lf a
      = [[GetState, Dispatch (SetLoading (uri (action a)) True), Fetch]]"
    using assms by (rule ensureLoaded_forced_shape)
  have other: "ensureLoaded lookup' fc lf' (a\<lparr>store := s'\<rparr>)
      = [[GetState, Dispatch (SetLoading (uri (action a)) True), Fetch]]"
    using assms ensureLoaded_forced_shape [of "a\<lparr>store := s'\<rparr>" lookup' fc lf'] by simp
  show ?thesis unfolding other unfolding shape by (simp add: fetchCount_simps)
qed

theorem ensureLoaded_force_refetch_witness:
  "ensureLoaded noLookup id coldWithXA (requestX indexWithX True None)
     = [[GetState, Dispatch (SetLoading ''x'' True), Fetch]]
   \<and> ensureLoaded noLookup id emptyCold (requestX emptyIndex True None)
     = ensureLoaded noLookup id coldWithXA (requestX indexWithX True None)"
proof -
  have 1: "forceRefetch (options (action (requestX indexWithX True None)))"
    by (simp add: requestX_def)
  have 2: "(requestX indexWithX True None)\<lparr>store := emptyIndex\<rparr> = requestX emptyIndex True None"
    by (simp add: requestX_def)
  show ?thesis
    using ensureLoaded_force_refetch
      [OF 1, where lookup = noLookup and lookup' = noLookup and fc = id and lf = coldWithXA
        and lf' = emptyCold and s' = emptyIndex]
    by (simp add: 2) (simp add: requestX_def)
qed

text \<open>
  C2 as stated asks for no read of the index at all. On a forced refetch of \<open>"x"\<close> the
  store state is read all the same.
\<close>

theorem ensureLoaded_force_refetch_reads_state:
  "ensureLoaded noLookup id emptyCold (requestX emptyIndex True None)
     = [[GetState, Dispatch (SetLoading ''x'' True), Fetch]]
   \<and> GetState \<in> set (concat (ensureLoaded noLookup id emptyCold (requestX emptyIndex True None)))"
  by (simp add: ensureLoaded_def Let_def requestX_def)

subsection \<open>Falling through to the cold store\<close>



subsection \<open>Restoring from the cold store\<close>

text \<open>
  C4, as the code has it. When \<open>forceRefetch\<close> is false, the index read does not satisfy
  the request and the cold store holds a complete item under the URI, \<open>fetch()\<close> is never
  called. The callback turn dispatches \<open>restoreItemsFromColdStore\<close> with the one restored
  item and runs the callback step on it. If the item has dependent URIs, the same turn asks
  the cold store for every one of them, and one later turn dispatches a single
  \<open>restoreItemsFromColdStore\<close> with the answers that are not misses, in order. If it has
  none (the guard \<open>uris.length > 0\<close>), nothing is read and nothing more is dispatched.
\<close>

theorem ensureLoaded_cold_hit:
  assumes "\<not> forceRefetch (options (action a))"
    and "\<not> truthy (indexedItem lookup a)
         \<or> missingDependents lookup a (indexedItem lookup a) \<noteq> []"
    and "lf (JStr (uri (action a))) = Some it"
    and "missingDependents lookup a (JObj it) = []"
  shows "ensureLoaded lookup fc lf a =
           [GetState, GetItem (JStr (uri (action a)))]
             # (if dependentUris lookup a (JObj it) \<noteq> []
                then [[Dispatch (RestoreItemsFromColdStore [it])]
                        @ callbackStep lookup fc a (JObj it)
                        @ map GetItem (dependentUris lookup a (JObj it)),
                      [Dispatch (RestoreItemsFromColdStore
                         (compact (map lf (dependentUris lookup a (JObj it)))))]]
                else [[Dispatch (RestoreItemsFromColdStore [it])]
                        @ callbackStep lookup fc a (JObj it)])
       \<and> compact (map lf (dependentUris lookup a (JObj it)))
           = map the (filter (\<lambda>r. r \<noteq> None) (map lf (dependentUris lookup a (JObj it))))
       \<and> fetchCount (concat (ensureLoaded lookup fc lf a)) = 0"
proof -
  note shape = ensureLoaded_cold_hit_shape [where lf = lf and fc = fc, OF assms]
  have "Fetch \<notin> set (concat (ensureLoaded lookup fc lf a))"
    unfolding shape using callbackStep_no_Fetch [of lookup fc a "JObj it"] by auto
  then have "fetchCount (concat (ensureLoaded lookup fc lf a)) = 0"
    by (rule fetchCount_none)
  with shape show ?thesis
    using compact_filter [of "map lf (dependentUris lookup a (JObj it))"] by blast
qed

theorem ensureLoaded_cold_hit_witness:
  "ensureLoaded noLookup id coldWithXA (requestX emptyIndex False None) =
     [[GetState, GetItem (JStr ''x'')],
      [Dispatch (RestoreItemsFromColdStore [albumX]), GetItem (JStr ''a''), GetItem (JStr ''b'')],
      [Dispatch (RestoreItemsFromColdStore [artistA])]]"
proof -
  let ?a = "requestX emptyIndex False None"
  have 1: "\<not> forceRefetch (options (action ?a))"
    by (simp add: requestX_def)
  have 2: "\<not> truthy (indexedItem noLookup ?a)
      \<or> missingDependents noLookup ?a (indexedItem noLookup ?a) \<noteq> []"
    by (simp add: eval_defs requestX_def emptyIndex_def)
  have 3: "coldWithXA (JStr (uri (action ?a))) = Some albumX"
    by (simp add: requestX_def coldWithXA_def)
  have 4: "missingDependents noLookup ?a (JObj albumX) = []"
    by (simp add: eval_defs requestX_def albumX_def)
  have 5: "dependentUris noLookup ?a (JObj albumX) = [JStr ''a'', JStr ''b'']"
    by (simp add: eval_defs requestX_def albumX_def)
  have 6: "callbackStep noLookup id ?a (JObj albumX) = []"
    by (simp add: callbackStep_def requestX_def)
  have 7: "compact (map coldWithXA [JStr ''a'', JStr ''b'']) = [artistA]"
    by (simp add: coldWithXA_def)
  note run = ensureLoaded_cold_hit
    [where lf = coldWithXA and fc = id, OF 1 2 3 4, THEN conjunct1]
  show ?thesis
    unfolding run 5 6 7 by (simp add: requestX_def)
qed

text \<open>
  C4 as stated has a bulk restoration dispatched in every such run. For an item restored
  from the cold store that has no dependent URIs (its \<open>artist_uri\<close> is not an array), the
  one-item restoration is the only dispatch.
\<close>

theorem ensureLoaded_cold_hit_no_bulk:
  "dispatchesOf (concat (ensureLoaded noLookup id coldWithPlain (requestX emptyIndex False None)))
     = [RestoreItemsFromColdStore [albumPlain]]"
  by (simp add: ensureLoaded_def onRestored_def Let_def eval_defs requestX_def emptyIndex_def
      coldWithPlain_def albumPlain_def)

text \<open>
  C10. In a run that restores a complete item from the cold store, no \<open>setLoading\<close> and no
  \<open>stopLoading\<close> is dispatched, for any URI, although the item is restored into the index.
\<close>

theorem cold_hit_leaves_loading_flag:
  assumes "\<not> forceRefetch (options (action a))"
    and "\<not> truthy (indexedItem lookup a)
         \<or> missingDependents lookup a (indexedItem lookup a) \<noteq> []"
    and "lf (JStr (uri (action a))) = Some it"
    and "missingDependents lookup a (JObj it) = []"
  shows "(\<forall>v b. SetLoading v b \<notin> set (dispatchesOf (concat (ensureLoaded lookup fc lf a))))
       \<and> (\<forall>v. StopLoading v \<notin> set (dispatchesOf (concat (ensureLoaded lookup fc lf a))))
       \<and> RestoreItemsFromColdStore [it]
           \<in> set (dispatchesOf (concat (ensureLoaded lookup fc lf a)))"
proof -
  note shape = ensureLoaded_cold_hit_shape [where lf = lf and fc = fc, OF assms]
  have cb: "\<And>d. d \<in> set (dispatchesOf (callbackStep lookup fc a (JObj it)))
      \<Longrightarrow> (\<exists>p. d = EnqueueURIs p) \<or> (\<exists>p. d = PlayURIs p)"
    using runCallback_only_requests [of _ lookup fc _ "JObj it"]
    by (auto simp: dispatchesOf_callbackStep split: option.splits)
  have all: "dispatchesOf (concat (ensureLoaded lookup fc lf a)) =
      RestoreItemsFromColdStore [it] # dispatchesOf (callbackStep lookup fc a (JObj it))
        @ (if dependentUris lookup a (JObj it) \<noteq> []
           then [RestoreItemsFromColdStore (compact (map lf (dependentUris lookup a (JObj it))))]
           else [])"
    unfolding shape by (simp add: dispatchesOf_append dispatchesOf_map_GetItem)
  show ?thesis unfolding all using cb by auto
qed

theorem cold_hit_leaves_loading_flag_witness:
  "dispatchesOf (concat
       (ensureLoaded noLookup id coldWithXA (requestX emptyIndex False (Some playNow))))
     \<noteq> []
   \<and> SetLoading ''x'' True
       \<notin> set (dispatchesOf (concat
           (ensureLoaded noLookup id coldWithXA (requestX emptyIndex False (Some playNow)))))
   \<and> StopLoading ''x''
       \<notin> set (dispatchesOf (concat
           (ensureLoaded noLookup id coldWithXA (requestX emptyIndex False (Some playNow)))))"
proof -
  let ?a = "requestX emptyIndex False (Some playNow)"
  have 1: "\<not> forceRefetch (options (action ?a))"
    by (simp add: requestX_def)
  have 2: "\<not> truthy (indexedItem noLookup ?a)
      \<or> missingDependents noLookup ?a (indexedItem noLookup ?a) \<noteq> []"
    by (simp add: eval_defs requestX_def emptyIndex_def)
  have 3: "coldWithXA (JStr (uri (action ?a))) = Some albumX"
    by (simp add: requestX_def coldWithXA_def)
  have 4: "missingDependents noLookup ?a (JObj albumX) = []"
    by (simp add: eval_defs requestX_def albumX_def)
  show ?thesis
    using cold_hit_leaves_loading_flag [where lf = coldWithXA and fc = id, OF 1 2 3 4]
    by auto
qed

subsection \<open>Calls of fetch over all branches\<close>

lemma no_Fetch_guarded:
  "Fetch \<notin> set t \<Longrightarrow> \<forall>i<length t. t ! i = Fetch \<longrightarrow> P i"
  by (metis nth_mem)

lemma fetch_turn_guarded:
  assumes "Fetch \<notin> set pre"
  shows "\<forall>i<length (pre @ [Dispatch (SetLoading u True), Fetch]).
     (pre @ [Dispatch (SetLoading u True), Fetch]) ! i = Fetch \<longrightarrow>
     0 < i \<and> (pre @ [Dispatch (SetLoading u True), Fetch]) ! (i - 1) = Dispatch (SetLoading u True)"
proof (intro allI impI)
  fix i
  assume len: "i < length (pre @ [Dispatch (SetLoading u True), Fetch])"
    and at: "(pre @ [Dispatch (SetLoading u True), Fetch]) ! i = Fetch"
  have "\<not> i < length pre"
    using assms at by (metis nth_append nth_mem)
  moreover have "i \<noteq> length pre"
    using at by (auto simp: nth_append)
  ultimately have i: "i = Suc (length pre)"
    using len by simp
  show "0 < i \<and> (pre @ [Dispatch (SetLoading u True), Fetch]) ! (i - 1) = Dispatch (SetLoading u True)"
    unfolding i by (simp add: nth_append)
qed

text \<open>
  C9. In every run, whatever the branch, \<open>fetch()\<close> is called at most once, and wherever it
  is called the event just before it, in the same turn, is the dispatch of
  \<open>setLoading(uri, true)\<close> for the requested URI.
\<close>

theorem fetch_once_after_setLoading:
  "fetchCount (concat (ensureLoaded lookup fc lf a)) \<le> 1 \<and>
   (\<forall>t \<in> set (ensureLoaded lookup fc lf a). \<forall>i < length t. t ! i = Fetch \<longrightarrow>
      0 < i \<and> t ! (i - 1) = Dispatch (SetLoading (uri (action a)) True))"
proof -
  let ?u = "uri (action a)"
  let ?item = "indexedItem lookup a"
  let ?ok = "\<lambda>t. \<forall>i < length t. t ! i = Fetch \<longrightarrow>
      0 < i \<and> t ! (i - 1) = Dispatch (SetLoading ?u True)"
  have last2: "?ok [Dispatch (SetLoading ?u True), Fetch]"
    using fetch_turn_guarded [of "[]" ?u] by simp
  have last3: "?ok [GetState, Dispatch (SetLoading ?u True), Fetch]"
    using fetch_turn_guarded [of "[GetState]" ?u] by simp
  have first: "?ok [GetState, GetItem (JStr ?u)]"
    by (rule no_Fetch_guarded) simp
  consider (forced) "forceRefetch (options (action a))"
    | (index) "\<not> forceRefetch (options (action a))" "truthy ?item"
        "missingDependents lookup a ?item = []"
    | (miss) "\<not> forceRefetch (options (action a))"
        "\<not> truthy ?item \<or> missingDependents lookup a ?item \<noteq> []"
        "lf (JStr ?u) = None
         \<or> (\<exists>it. lf (JStr ?u) = Some it \<and> missingDependents lookup a (JObj it) \<noteq> [])"
    | (hit) it where "\<not> forceRefetch (options (action a))"
        "\<not> truthy ?item \<or> missingDependents lookup a ?item \<noteq> []"
        "lf (JStr ?u) = Some it" "missingDependents lookup a (JObj it) = []"
    by (cases "lf (JStr ?u)") auto
  then show ?thesis
  proof cases
    case forced
    then have shape: "ensureLoaded lookup fc lf a
        = [[GetState, Dispatch (SetLoading ?u True), Fetch]]"
      by (rule ensureLoaded_forced_shape)
    show ?thesis unfolding shape using last3 by (simp add: fetchCount_simps)
  next
    case index
    note shape = ensureLoaded_index_shape [OF index, of fc lf]
    have none: "Fetch \<notin> set (concat (ensureLoaded lookup fc lf a))"
      unfolding shape using callbackStep_no_Fetch [of lookup fc a ?item] by auto
    then have "\<forall>t \<in> set (ensureLoaded lookup fc lf a). Fetch \<notin> set t"
      by auto
    with none show ?thesis
      using fetchCount_none [of "concat (ensureLoaded lookup fc lf a)"] by (metis le0 nth_mem)
  next
    case miss
    have shape: "ensureLoaded lookup fc lf a =
        [[GetState, GetItem (JStr ?u)], [Dispatch (SetLoading ?u True), Fetch]]"
      using ensureLoaded_cold_shape [OF miss(1,2), of fc lf]
        onRestored_miss [OF miss(3), of fc lf]
      by simp
    show ?thesis unfolding shape using last2 first by (simp add: fetchCount_simps)
  next
    case hit
    note shape = ensureLoaded_cold_hit_shape [where lf = lf and fc = fc, OF hit]
    have none: "Fetch \<notin> set (concat (ensureLoaded lookup fc lf a))"
      unfolding shape using callbackStep_no_Fetch [of lookup fc a "JObj it"] by auto
    then have "\<forall>t \<in> set (ensureLoaded lookup fc lf a). Fetch \<notin> set t"
      by auto
    with none show ?thesis
      using fetchCount_none [of "concat (ensureLoaded lookup fc lf a)"] by (metis le0 nth_mem)
  qed
qed

theorem fetch_once_after_setLoading_witness:
  "[Dispatch (SetLoading ''x'' True), Fetch]
     \<in> set (ensureLoaded noLookup id emptyCold (requestX emptyIndex False None))
   \<and> fetchCount (concat (ensureLoaded noLookup id emptyCold (requestX emptyIndex False None))) \<le> 1
   \<and> [Dispatch (SetLoading ''x'' True), Fetch] ! (1 - 1)
       = Dispatch (SetLoading (uri (action (requestX emptyIndex False None))) True)"
proof -
  let ?a = "requestX emptyIndex False None"
  let ?t = "[Dispatch (SetLoading ''x'' True), Fetch]"
  have turn: "?t \<in> set (ensureLoaded noLookup id emptyCold ?a)"
    by (simp add: ensureLoaded_def onRestored_def Let_def eval_defs requestX_def emptyIndex_def
        emptyCold_def)
  have at: "(1::nat) < length ?t \<and> ?t ! 1 = Fetch"
    by simp
  from fetch_once_after_setLoading [of noLookup id emptyCold ?a] turn at show ?thesis
    by blast
qed

subsection \<open>The callback step\<close>

text \<open>
  C7, as the code has it. For a name \<open>"enqueue"\<close> the callback step dispatches one enqueue
  request, for \<open>"play"\<close> one play request with the same object, and for any other name
  nothing. The object carries every property of the callback action (its \<open>name\<close> too);
  besides them it has \<open>uris\<close>, the one-element list of the item's \<open>uri\<close>, and \<open>from\<close>, the
  formatted item, each only where the callback action has no property of that name of its
  own; and it has no other property.
\<close>

theorem runCallback_request:
  "\<exists>p. runCallback lookup fc cb item =
          (if getProp lookup (JObj cb) ''name'' = JStr ''enqueue'' then [EnqueueURIs p]
           else if getProp lookup (JObj cb) ''name'' = JStr ''play'' then [PlayURIs p]
           else [])
      \<and> (\<forall>k v. cb k = Some v \<longrightarrow> p k = Some v)
      \<and> (cb ''uris'' = None \<longrightarrow> p ''uris'' = Some (JArr [getProp lookup item ''uri'']))
      \<and> (cb ''from'' = None \<longrightarrow> p ''from'' = Some (fc item))
      \<and> (\<forall>k. cb k = None \<and> k \<noteq> ''uris'' \<and> k \<noteq> ''from'' \<longrightarrow> p k = None)
      \<and> (getProp lookup (JObj cb) ''name'' = JStr ''enqueue''
            \<longleftrightarrow> cb ''name'' = Some (JStr ''enqueue''))
      \<and> (getProp lookup (JObj cb) ''name'' = JStr ''play''
            \<longleftrightarrow> cb ''name'' = Some (JStr ''play''))"
proof -
  let ?p = "[''uris'' \<mapsto> JArr [getProp lookup item ''uri''], ''from'' \<mapsto> fc item] ++ cb"
  have run: "runCallback lookup fc cb item =
          (if getProp lookup (JObj cb) ''name'' = JStr ''enqueue'' then [EnqueueURIs ?p]
           else if getProp lookup (JObj cb) ''name'' = JStr ''play'' then [PlayURIs ?p]
           else [])"
    by (simp add: runCallback_def)
  have over: "\<forall>k v. cb k = Some v \<longrightarrow> ?p k = Some v"
    by (simp add: map_add_Some_iff)
  have uris: "cb ''uris'' = None \<longrightarrow> ?p ''uris'' = Some (JArr [getProp lookup item ''uri''])"
    by (simp add: map_add_def)
  have frm: "cb ''from'' = None \<longrightarrow> ?p ''from'' = Some (fc item)"
    by (simp add: map_add_def)
  have rest: "\<forall>k. cb k = None \<and> k \<noteq> ''uris'' \<and> k \<noteq> ''from'' \<longrightarrow> ?p k = None"
    by (simp add: map_add_def)
  have own: "getProp lookup (JObj cb) ''name'' = JStr n \<longleftrightarrow> cb ''name'' = Some (JStr n)" for n
    using inherited_cases [of "''name''"] by (auto simp: getProp_def split: option.splits)
  show ?thesis
    by (rule exI [where x = ?p]) (intro conjI run over uris frm rest own)
qed

theorem runCallback_request_witness:
  "runCallback noLookup id playNow (JObj albumX) =
     [PlayURIs [''uris'' \<mapsto> JArr [JStr ''x''], ''from'' \<mapsto> JObj albumX,
                ''name'' \<mapsto> JStr ''play'']]"
proof -
  have name: "getProp noLookup (JObj playNow) ''name'' = JStr ''play''"
    by (simp add: getProp_def playNow_def)
  have uri: "getProp noLookup (JObj albumX) ''uri'' = JStr ''x''"
    by (simp add: getProp_def albumX_def)
  have nouris: "playNow ''uris'' = None" and nofrom: "playNow ''from'' = None"
    by (simp_all add: playNow_def)
  from runCallback_request [of noLookup id playNow "JObj albumX"] obtain p where
    run: "runCallback noLookup id playNow (JObj albumX) = [PlayURIs p]"
    and over: "\<forall>k v. playNow k = Some v \<longrightarrow> p k = Some v"
    and uris: "p ''uris'' = Some (JArr [JStr ''x''])"
    and frm: "p ''from'' = Some (JObj albumX)"
    and rest: "\<forall>k. playNow k = None \<and> k \<noteq> ''uris'' \<and> k \<noteq> ''from'' \<longrightarrow> p k = None"
    unfolding name uri using nouris nofrom by auto
  have "p k = [''uris'' \<mapsto> JArr [JStr ''x''], ''from'' \<mapsto> JObj albumX,
               ''name'' \<mapsto> JStr ''play''] k"
    for k
    using over uris frm rest by (auto simp: playNow_def)
  then have "p = [''uris'' \<mapsto> JArr [JStr ''x''], ''from'' \<mapsto> JObj albumX,
                  ''name'' \<mapsto> JStr ''play'']"
    by (rule ext)
  with run show ?thesis by simp
qed

text \<open>
  C7 as stated has \<open>uris\<close> equal to the one-element list of the item's \<open>uri\<close> for every
  callback action. A callback action with a \<open>uris\<close> property of its own, spread last into
  the object literal, replaces it: the item's \<open>uri\<close> is \<open>"x"\<close>, the request asks for \<open>"z"\<close>.
\<close>

theorem runCallback_uris_overridden:
  "runCallback noLookup id enqueueOther (JObj albumX) =
     [EnqueueURIs [''from'' \<mapsto> JObj albumX, ''name'' \<mapsto> JStr ''enqueue'',
                   ''uris'' \<mapsto> JArr [JStr ''z'']]]
   \<and> getProp noLookup (JObj albumX) ''uri'' = JStr ''x''"
  by (auto simp: runCallback_def getProp_def enqueueOther_def albumX_def map_add_def fun_eq_iff)

subsection \<open>Two calls in a row\<close>

lemma same_item_same_run:
  assumes "\<not> forceRefetch (options (action a))"
    and "truthy (indexedItem lookup (a\<lparr>store := s\<rparr>))"
    and "missingDependents lookup a (indexedItem lookup (a\<lparr>store := s\<rparr>)) = []"
    and "indexedItem lookup (a\<lparr>store := s'\<rparr>) = indexedItem lookup (a\<lparr>store := s\<rparr>)"
  shows "ensureLoaded lookup fc lf' (a\<lparr>store := s'\<rparr>) = ensureLoaded lookup fc lf (a\<lparr>store := s\<rparr>)"
proof -
  have indep: "missingDependents lookup (a\<lparr>store := z\<rparr>) v = missingDependents lookup a v"
    "dependentUris lookup (a\<lparr>store := z\<rparr>) v = dependentUris lookup a v"
    "callbackStep lookup fc (a\<lparr>store := z\<rparr>) v = callbackStep lookup fc a v" for z v
    by (simp_all add: missingDependents_def dependentUris_def callbackStep_def)
  have one: "ensureLoaded lookup fc lf (a\<lparr>store := s\<rparr>) =
     [[GetState, Dispatch (StopLoading (uri (action a)))]
        @ (if dependentUris lookup a (indexedItem lookup (a\<lparr>store := s\<rparr>)) \<noteq> []
           then [Dispatch (LoadItems (itemType a)
                   (dependentUris lookup a (indexedItem lookup (a\<lparr>store := s\<rparr>))))]
           else [])
        @ callbackStep lookup fc a (indexedItem lookup (a\<lparr>store := s\<rparr>))]"
    using ensureLoaded_index_shape [of "a\<lparr>store := s\<rparr>" lookup fc lf] assms(1,2,3)
    by (simp add: indep)
  have two: "ensureLoaded lookup fc lf' (a\<lparr>store := s'\<rparr>) =
     [[GetState, Dispatch (StopLoading (uri (action a)))]
        @ (if dependentUris lookup a (indexedItem lookup (a\<lparr>store := s\<rparr>)) \<noteq> []
           then [Dispatch (LoadItems (itemType a)
                   (dependentUris lookup a (indexedItem lookup (a\<lparr>store := s\<rparr>))))]
           else [])
        @ callbackStep lookup fc a (indexedItem lookup (a\<lparr>store := s\<rparr>))]"
    using ensureLoaded_index_shape [of "a\<lparr>store := s'\<rparr>" lookup fc lf'] assms
    by (simp add: indep)
  from one two show ?thesis by simp
qed

text \<open>
  C8. For an item that is complete in the index, a call on the store is one turn \<open>t\<close> with
  nothing left pending, and \<open>t\<close> has at least one dispatch. A second call right after it
  reads the state the first call's dispatches have left. If they have left the item as it
  was (the calls are on the same state), the second call runs \<open>t\<close> again: the dispatches
  come twice, none is held back because it was made before. The turn is determined by the
  request and the item the index read gives: a call with the same arguments on any state
  that gives the same item, whatever the cold store holds, is \<open>t\<close>.
\<close>

theorem ensureLoaded_twice:
  assumes "\<not> forceRefetch (options (action a))"
    and "truthy (indexedItem lookup (a\<lparr>store := s\<rparr>))"
    and "missingDependents lookup a (indexedItem lookup (a\<lparr>store := s\<rparr>)) = []"
    and "indexedItem lookup (a\<lparr>store := snd (callOnStore lookup fc lf reducer fetched a s)\<rparr>)
           = indexedItem lookup (a\<lparr>store := s\<rparr>)"
  shows "\<exists>t. ensureLoaded lookup fc lf (a\<lparr>store := s\<rparr>) = [t]
           \<and> fst (callOnStore lookup fc lf reducer fetched a s) = t
           \<and> fst (ensureLoadedTwice lookup fc lf reducer fetched a s) = t @ t
           \<and> dispatchesOf (fst (ensureLoadedTwice lookup fc lf reducer fetched a s))
               = dispatchesOf t @ dispatchesOf t
           \<and> dispatchesOf t \<noteq> []
           \<and> (\<forall>lf' s'. indexedItem lookup (a\<lparr>store := s'\<rparr>) = indexedItem lookup (a\<lparr>store := s\<rparr>)
                \<longrightarrow> ensureLoaded lookup fc lf' (a\<lparr>store := s'\<rparr>) = [t])"
proof -
  let ?item = "indexedItem lookup (a\<lparr>store := s\<rparr>)"
  let ?t = "[GetState, Dispatch (StopLoading (uri (action a)))]
        @ (if dependentUris lookup a ?item \<noteq> []
           then [Dispatch (LoadItems (itemType a) (dependentUris lookup a ?item))] else [])
        @ callbackStep lookup fc a ?item"
  let ?s1 = "snd (callOnStore lookup fc lf reducer fetched a s)"
  have indep: "missingDependents lookup (a\<lparr>store := z\<rparr>) v = missingDependents lookup a v"
    "dependentUris lookup (a\<lparr>store := z\<rparr>) v = dependentUris lookup a v"
    "callbackStep lookup fc (a\<lparr>store := z\<rparr>) v = callbackStep lookup fc a v" for z v
    by (simp_all add: missingDependents_def dependentUris_def callbackStep_def)
  have shape: "ensureLoaded lookup fc lf (a\<lparr>store := s\<rparr>) = [?t]"
    using ensureLoaded_index_shape [of "a\<lparr>store := s\<rparr>" lookup fc lf] assms(1,2,3)
    by (simp add: indep)
  have same: "ensureLoaded lookup fc lf' (a\<lparr>store := s'\<rparr>) = [?t]"
    if "indexedItem lookup (a\<lparr>store := s'\<rparr>) = ?item" for lf' s'
    using same_item_same_run [OF assms(1,2,3) that, of fc lf' lf] shape by simp
  obtain t1 s1 where c1: "callOnStore lookup fc lf reducer fetched a s = (t1, s1)"
    by (cases "callOnStore lookup fc lf reducer fetched a s")
  have t1: "t1 = ?t"
    using c1 by (simp add: callOnStore_def shape Let_def)
  have s1: "s1 = ?s1"
    using c1 by simp
  obtain t2 s2 where c2: "callOnStore lookup fc lf reducer fetched a s1 = (t2, s2)"
    by (cases "callOnStore lookup fc lf reducer fetched a s1")
  have "ensureLoaded lookup fc lf (a\<lparr>store := s1\<rparr>) = [?t]"
    using same [of s1 lf] assms(4) s1 by simp
  then have t2: "t2 = ?t"
    using c2 by (simp add: callOnStore_def Let_def)
  have "fst (ensureLoadedTwice lookup fc lf reducer fetched a s) = t1 @ t2"
    by (simp add: ensureLoadedTwice_def c1 c2)
  then have twice: "fst (ensureLoadedTwice lookup fc lf reducer fetched a s) = ?t @ ?t"
    unfolding t1 t2 .
  have ds: "dispatchesOf (fst (ensureLoadedTwice lookup fc lf reducer fetched a s))
      = dispatchesOf ?t @ dispatchesOf ?t"
    unfolding twice by (rule dispatchesOf_append)
  have nonempty: "dispatchesOf ?t \<noteq> []"
    by simp
  have first: "fst (callOnStore lookup fc lf reducer fetched a s) = ?t"
    using c1 t1 by simp
  show ?thesis
    by (rule exI [where x = ?t]) (use shape first twice ds nonempty same in blast)
qed

theorem ensureLoaded_twice_witness:
  "dispatchesOf (fst (ensureLoadedTwice noLookup id emptyCold notingReducer id
       (requestX emptyIndex False None) indexWithX)) =
     [StopLoading ''x'', LoadItems (JStr ''artists'') [JStr ''a'', JStr ''b''],
      StopLoading ''x'', LoadItems (JStr ''artists'') [JStr ''a'', JStr ''b'']]
   \<and> indexItem noLookup
         (snd (callOnStore noLookup id emptyCold notingReducer id
            (requestX emptyIndex False None) indexWithX)) ''stopped'' ''x''
       = JObj Map.empty
   \<and> indexItem noLookup indexWithX ''stopped'' ''x'' = JUndefined"
proof -
  let ?a = "requestX emptyIndex False None"
  have a: "?a\<lparr>store := indexWithX\<rparr> = requestX indexWithX False None"
    by (simp add: requestX_def)
  have 1: "\<not> forceRefetch (options (action ?a))"
    by (simp add: requestX_def)
  have 2: "truthy (indexedItem noLookup (?a\<lparr>store := indexWithX\<rparr>))"
    by (simp add: eval_defs requestX_def indexWithX_def)
  have 3: "missingDependents noLookup ?a (indexedItem noLookup (?a\<lparr>store := indexWithX\<rparr>)) = []"
    by (simp add: eval_defs requestX_def indexWithX_def albumX_def)
  have run: "ensureLoaded noLookup id emptyCold (?a\<lparr>store := indexWithX\<rparr>) =
      [[GetState, Dispatch (StopLoading ''x''),
        Dispatch (LoadItems (JStr ''artists'') [JStr ''a'', JStr ''b''])]]"
    unfolding a
    by (simp add: ensureLoaded_def Let_def eval_defs requestX_def indexWithX_def albumX_def)
  have "snd (callOnStore noLookup id emptyCold notingReducer id ?a indexWithX)
      = foldl (effect notingReducer id) indexWithX
          [GetState, Dispatch (StopLoading ''x''),
           Dispatch (LoadItems (JStr ''artists'') [JStr ''a'', JStr ''b''])]"
    by (simp add: callOnStore_def Let_def run)
  also have "\<dots> = \<lparr> core = Some [''items'' \<mapsto> [''x'' \<mapsto> albumX],
                                  ''stopped'' \<mapsto> [''x'' \<mapsto> Map.empty]] \<rparr>"
    by (simp add: effect_def notingReducer_def indexWithX_def)
  finally have after: "snd (callOnStore noLookup id emptyCold notingReducer id ?a indexWithX)
      = \<lparr> core = Some [''items'' \<mapsto> [''x'' \<mapsto> albumX],
                         ''stopped'' \<mapsto> [''x'' \<mapsto> Map.empty]] \<rparr>" .
  have 4: "indexedItem noLookup
      (?a\<lparr>store := snd (callOnStore noLookup id emptyCold notingReducer id ?a indexWithX)\<rparr>)
      = indexedItem noLookup (?a\<lparr>store := indexWithX\<rparr>)"
    unfolding after by (simp add: eval_defs requestX_def indexWithX_def)
  have noted: "indexItem noLookup
      (snd (callOnStore noLookup id emptyCold notingReducer id ?a indexWithX)) ''stopped'' ''x''
      = JObj Map.empty"
    unfolding after by (simp add: indexItem_def)
  have before: "indexItem noLookup indexWithX ''stopped'' ''x'' = JUndefined"
    by (simp add: indexItem_def indexWithX_def inherited_def objectPrototype_def)
  from ensureLoaded_twice [OF 1 2 3 4] obtain t where
    "ensureLoaded noLookup id emptyCold (?a\<lparr>store := indexWithX\<rparr>) = [t]"
    "dispatchesOf (fst (ensureLoadedTwice noLookup id emptyCold notingReducer id ?a indexWithX))
       = dispatchesOf t @ dispatchesOf t"
    by blast
  with run noted before show ?thesis by simp
qed

end
